theory Spec2Isabelle
  imports Complex_Main "HOL-Library.Multiset"
begin

section \<open>Numbers, errors and array access\<close>

text \<open>
  The program works on NumPy arrays of floating-point numbers. The model is in exact
  arithmetic: a finite float is a \<open>real\<close>, and an array is a \<open>real list\<close>. Rounding and
  overflow are outside the model. The only way the program can produce a non-finite
  float from finite ones is a division by zero, and that is kept: the NumPy division
  returns an \<open>fval\<close>, which is either a finite number or \<open>NonFinite\<close> (an infinity or a
  NaN).
\<close>

datatype fval = Finite real | NonFinite

text \<open>
  Every exception the program raises is a \<open>ValueError\<close>; the constructors tell the raise
  sites apart by their message: fewer than two points, lengths of x and y differ, not
  exactly four points, duplicate x coordinate. \<open>IndexError\<close> is NumPy's own, for an index
  out of bounds.
\<close>

datatype error = InsufficientPoints | LengthMismatch | FixedArity | DegenerateInput | IndexError

definition bind_err :: "error + 'a \<Rightarrow> ('a \<Rightarrow> error + 'b) \<Rightarrow> error + 'b" where
  "bind_err r f = (case r of Inl e \<Rightarrow> Inl e | Inr v \<Rightarrow> f v)"

text \<open>\<open>a[i]\<close>: a negative index counts from the end, an index out of bounds raises.\<close>

definition getitem :: "'a list \<Rightarrow> int \<Rightarrow> error + 'a" where
  "getitem a i =
     (let n = int (length a); j = (if i < 0 then i + n else i)
      in if 0 \<le> j \<and> j < n then Inr (a ! nat j) else Inl IndexError)"

text \<open>\<open>a[i] = v\<close>, with the same index rule.\<close>

definition setitem :: "'a list \<Rightarrow> int \<Rightarrow> 'a \<Rightarrow> error + 'a list" where
  "setitem a i v =
     (let n = int (length a); j = (if i < 0 then i + n else i)
      in if 0 \<le> j \<and> j < n then Inr (a[nat j := v]) else Inl IndexError)"

text \<open>\<open>a / b\<close> on floats under \<open>np.errstate(divide='ignore', invalid='ignore')\<close>.\<close>

definition np_divide :: "real \<Rightarrow> real \<Rightarrow> fval" where
  "np_divide a b = (if b = 0 then NonFinite else Finite (a / b))"

fun isfinite :: "fval \<Rightarrow> bool" where
  "isfinite (Finite r) = True"
| "isfinite NonFinite = False"

text \<open>\<open>np.where(np.isfinite(v), v, 0.0)\<close> on one element.\<close>

fun finite_or_zero :: "fval \<Rightarrow> real" where
  "finite_or_zero (Finite r) = r"
| "finite_or_zero NonFinite = 0"

section \<open>Secant slopes\<close>

text \<open>
  \<open>calculate_slopes\<close>, on arrays of equal length (its only callers pass \<open>x_sorted\<close> and
  \<open>y_sorted\<close>, which have the length of \<open>x_data\<close>):
  \<^verbatim>\<open>slopes = (y[1:] - y[:-1]) / (x[1:] - x[:-1])\<close>, then the non-finite entries are
  replaced by 0.0.
\<close>

definition calculate_slopes :: "real list \<Rightarrow> real list \<Rightarrow> real list" where
  "calculate_slopes x y =
     (let slopes = map2 np_divide (map2 (-) (tl y) (butlast y)) (map2 (-) (tl x) (butlast x))
      in map finite_or_zero slopes)"

section \<open>Akima tangents\<close>

text \<open>The body of the interior loop of \<open>calculate_spline_slopes\<close>, for one \<open>i\<close>.\<close>

definition interior_tangent :: "real list \<Rightarrow> int \<Rightarrow> error + real" where
  "interior_tangent m i =
     bind_err (getitem m (i + 1)) (\<lambda>m_i1.
     bind_err (getitem m i) (\<lambda>m_i.
     bind_err (getitem m (i - 1)) (\<lambda>m_im1.
     bind_err (getitem m (i - 2)) (\<lambda>m_im2.
       let w1 = \<bar>m_i1 - m_i\<bar>;
           w2 = \<bar>m_im1 - m_im2\<bar>;
           denominator = w1 + w2
       in if denominator = 0 then Inr ((m_im1 + m_i) / 2)
          else Inr ((w1 * m_im1 + w2 * m_i) / denominator)))))"

text \<open>\<open>for i in range(2, n - 2)\<close>, over the list of the indices of the range.\<close>

fun interior_loop :: "real list \<Rightarrow> int list \<Rightarrow> real list \<Rightarrow> error + real list" where
  "interior_loop m [] s = Inr s"
| "interior_loop m (i # is) s =
     bind_err (interior_tangent m i) (\<lambda>v.
     bind_err (setitem s i v) (interior_loop m is))"

definition calculate_spline_slopes :: "real list \<Rightarrow> real list \<Rightarrow> error + real list" where
  "calculate_spline_slopes x y =
     (let n = int (length x) in
      if n < 2 then Inl InsufficientPoints
      else
        let m = calculate_slopes x y;
            s = replicate (nat n) 0
        in if n = 2 then
             bind_err (getitem m 0) (\<lambda>m0.
             bind_err (setitem s 0 m0) (\<lambda>s.
             bind_err (getitem m 0) (\<lambda>m0.
             setitem s 1 m0)))
           else
             bind_err (getitem m 0) (\<lambda>m0.
             bind_err (setitem s 0 m0) (\<lambda>s.
             bind_err (if n > 2 then
                         bind_err (getitem m 0) (\<lambda>m0.
                         bind_err (getitem m 1) (\<lambda>m1.
                         setitem s 1 ((m0 + m1) / 2)))
                       else Inr s) (\<lambda>s.
             bind_err (interior_loop m [2..n - 3] s) (\<lambda>s.
             bind_err (if n > 2 then
                         bind_err (getitem m (n - 3)) (\<lambda>ma.
                         bind_err (getitem m (n - 2)) (\<lambda>mb.
                         setitem s (n - 2) ((ma + mb) / 2)))
                       else Inr s) (\<lambda>s.
             bind_err (getitem m (n - 2)) (\<lambda>ml.
             setitem s (n - 1) ml)))))))"

section \<open>Cubic coefficients of one segment\<close>

definition calculate_cubic_coefficients ::
  "real list \<Rightarrow> real list \<Rightarrow> real list \<Rightarrow> int \<Rightarrow> error + (real \<times> real \<times> real \<times> real)" where
  "calculate_cubic_coefficients x y s i =
     bind_err (getitem x i) (\<lambda>x_i.
     bind_err (getitem x (i + 1)) (\<lambda>x_i1.
     bind_err (getitem y i) (\<lambda>y_i.
     bind_err (getitem y (i + 1)) (\<lambda>y_i1.
     bind_err (getitem s i) (\<lambda>s_i.
     bind_err (getitem s (i + 1)) (\<lambda>s_i1.
       let h = x_i1 - x_i in
       if h = 0 then Inl DegenerateInput
       else
         let m_i = (y_i1 - y_i) / h;
             a_i = y_i;
             b_i = s_i;
             c_i = (3 * m_i - 2 * s_i - s_i1) / h;
             d_i = (s_i + s_i1 - 2 * m_i) / (h * h)
         in Inr (a_i, b_i, c_i, d_i)))))))"

text \<open>The polynomial the entry points evaluate: \<open>a + b * dx + c * dx * dx + d * dx * dx * dx\<close>.\<close>

definition cubic :: "real \<times> real \<times> real \<times> real \<Rightarrow> real \<Rightarrow> real" where
  "cubic k dx = (case k of (a, b, c, d) \<Rightarrow> a + b * dx + c * dx * dx + d * dx * dx * dx)"

section \<open>Sorting and searching (NumPy)\<close>

text \<open>
  \<open>np.argsort\<close>, \<open>np.searchsorted\<close> and indexing an array by an array of indices are
  NumPy's, not code of this repository; they are modelled from NumPy's documentation.
  \<open>argsort x\<close> is the list of the indices of \<open>x\<close> in ascending order of their values
  (equal values in their original order). \<open>searchsorted a v\<close>, with the default
  \<open>side='left'\<close>, is the binary search for the first position whose element is not
  below \<open>v\<close>.
\<close>

definition argsort :: "real list \<Rightarrow> nat list" where
  "argsort x = sort_key (\<lambda>i. x ! i) [0..<length x]"

definition take_indices :: "real list \<Rightarrow> nat list \<Rightarrow> error + real list" where
  "take_indices a idxs =
     (if list_all (\<lambda>i. i < length a) idxs then Inr (map (\<lambda>i. a ! i) idxs) else Inl IndexError)"

function searchsorted_loop :: "real list \<Rightarrow> real \<Rightarrow> nat \<Rightarrow> nat \<Rightarrow> nat" where
  "searchsorted_loop a v lo hi =
     (if lo < hi then
        (let mid = lo + (hi - lo) div 2
         in if a ! mid < v then searchsorted_loop a v (mid + 1) hi
            else searchsorted_loop a v lo mid)
      else lo)"
  by pat_completeness auto
termination
  by (relation "measure (\<lambda>(a, v, lo, hi). hi - lo)") auto

declare searchsorted_loop.simps [simp del]

definition searchsorted :: "real list \<Rightarrow> real \<Rightarrow> nat" where
  "searchsorted a v = searchsorted_loop a v 0 (length a)"

section \<open>Evaluation on the sorted samples\<close>

text \<open>
  The segment-location step:
  \<^verbatim>\<open>idx = np.searchsorted(x_sorted, x_interp) - 1\<close>,
  \<^verbatim>\<open>idx = max(0, min(idx, len(x_sorted) - 2))\<close>.
\<close>

definition segment_index :: "real list \<Rightarrow> real \<Rightarrow> int" where
  "segment_index x_sorted x_interp =
     (let idx = int (searchsorted x_sorted x_interp) - 1
      in max 0 (min idx (int (length x_sorted) - 2)))"

text \<open>
  After the sort, \<open>akima_interpolate_4points\<close>, \<open>akima_interpolate_4points_with_cache\<close> and
  \<open>akima_interpolate_npoints\<close> run the same text: the two extrapolation branches, then
  the evaluation of the cubic of the located segment. The model writes it once. The
  tangents \<open>s\<close> are passed as a result: the uncached entry points call
  \<open>calculate_spline_slopes\<close> only after the extrapolation branches, so its exception can
  only surface there, and the cached entry point passes the stored vector.
\<close>

definition segment_value :: "real list \<Rightarrow> real list \<Rightarrow> real list \<Rightarrow> real \<Rightarrow> error + real" where
  "segment_value x_sorted y_sorted s x_interp =
     (let idx = segment_index x_sorted x_interp in
      bind_err (calculate_cubic_coefficients x_sorted y_sorted s idx) (\<lambda>k.
      bind_err (getitem x_sorted idx) (\<lambda>x_idx.
        let dx = x_interp - x_idx in Inr (cubic k dx))))"

definition interpolate_sorted ::
  "real list \<Rightarrow> real list \<Rightarrow> error + real list \<Rightarrow> real \<Rightarrow> error + real" where
  "interpolate_sorted x_sorted y_sorted s_result x_interp =
     bind_err (getitem x_sorted 0) (\<lambda>x_first.
     if x_interp \<le> x_first then
       (if length x_sorted > 1 then
          bind_err (getitem x_sorted 1) (\<lambda>x_1.
          let dx = x_1 - x_first in
          if dx = 0 then getitem y_sorted 0
          else
            bind_err (getitem y_sorted 0) (\<lambda>y_0.
            bind_err (getitem y_sorted 1) (\<lambda>y_1.
            Inr (y_0 + (y_1 - y_0) / dx * (x_interp - x_first)))))
        else getitem y_sorted 0)
     else
       bind_err (getitem x_sorted (- 1)) (\<lambda>x_last.
       if x_interp \<ge> x_last then
         (if length x_sorted > 1 then
            bind_err (getitem x_sorted (- 2)) (\<lambda>x_prev.
            let dx = x_last - x_prev in
            if dx = 0 then getitem y_sorted (- 1)
            else
              bind_err (getitem y_sorted (- 1)) (\<lambda>y_last.
              bind_err (getitem y_sorted (- 2)) (\<lambda>y_prev.
              Inr (y_last + (y_last - y_prev) / dx * (x_interp - x_last)))))
          else getitem y_sorted (- 1))
       else
         bind_err s_result (\<lambda>s. segment_value x_sorted y_sorted s x_interp)))"

section \<open>Entry points\<close>

definition akima_interpolate_npoints :: "real list \<Rightarrow> real list \<Rightarrow> real \<Rightarrow> error + real" where
  "akima_interpolate_npoints x_data y_data x_interp =
     (if length x_data \<noteq> length y_data then Inl LengthMismatch
      else if length x_data < 2 then Inl InsufficientPoints
      else
        let sorted_indices = argsort x_data in
        bind_err (take_indices x_data sorted_indices) (\<lambda>x_sorted.
        bind_err (take_indices y_data sorted_indices) (\<lambda>y_sorted.
        interpolate_sorted x_sorted y_sorted
          (calculate_spline_slopes x_sorted y_sorted) x_interp)))"

definition akima_interpolate_4points :: "real list \<Rightarrow> real list \<Rightarrow> real \<Rightarrow> error + real" where
  "akima_interpolate_4points x_data y_data x_interp =
     (if length x_data \<noteq> 4 \<or> length y_data \<noteq> 4 then Inl FixedArity
      else
        let sorted_indices = argsort x_data in
        bind_err (take_indices x_data sorted_indices) (\<lambda>x_sorted.
        bind_err (take_indices y_data sorted_indices) (\<lambda>y_sorted.
        interpolate_sorted x_sorted y_sorted
          (calculate_spline_slopes x_sorted y_sorted) x_interp)))"

subsection \<open>The cached entry point\<close>

text \<open>
  \<open>_akima_4points_cache\<close> is a module-level dictionary from \<open>(tuple(x_data), tuple(y_data))\<close>
  to the dictionary of \<open>x_sorted\<close>, \<open>y_sorted\<close> and \<open>s\<close>. The model passes the cache in and
  returns it with the result. An exception raised while the entry is computed leaves
  the cache as it was.
\<close>

record cache_entry =
  entry_x_sorted :: "real list"
  entry_y_sorted :: "real list"
  entry_s :: "real list"

type_synonym cache = "real list \<times> real list \<Rightarrow> cache_entry option"

text \<open>The body of \<open>if data_key not in _akima_4points_cache\<close>, up to the dictionary it stores.\<close>

definition new_entry :: "real list \<Rightarrow> real list \<Rightarrow> error + cache_entry" where
  "new_entry x_data y_data =
     (let sorted_indices = argsort x_data in
      bind_err (take_indices x_data sorted_indices) (\<lambda>x_sorted.
      bind_err (take_indices y_data sorted_indices) (\<lambda>y_sorted.
      bind_err (calculate_spline_slopes x_sorted y_sorted) (\<lambda>s.
      Inr \<lparr>entry_x_sorted = x_sorted, entry_y_sorted = y_sorted, entry_s = s\<rparr>))))"

definition from_entry :: "cache_entry \<Rightarrow> real \<Rightarrow> error + real" where
  "from_entry e x_interp =
     interpolate_sorted (entry_x_sorted e) (entry_y_sorted e) (Inr (entry_s e)) x_interp"

definition akima_interpolate_4points_with_cache ::
  "cache \<Rightarrow> real list \<Rightarrow> real list \<Rightarrow> real \<Rightarrow> (error + real) \<times> cache" where
  "akima_interpolate_4points_with_cache c x_data y_data x_interp =
     (let data_key = (x_data, y_data) in
      case c data_key of
        Some e \<Rightarrow> (from_entry e x_interp, c)
      | None \<Rightarrow>
          (case new_entry x_data y_data of
             Inl err \<Rightarrow> (Inl err, c)
           | Inr e \<Rightarrow> (from_entry e x_interp, c(data_key \<mapsto> e))))"

subsection \<open>The copy under Homework\<close>

text \<open>
  \<open>Homework/akima_interpolation.py\<close> is the same module with docstrings, and without the
  test \<open>dx == 0\<close> in the extrapolation branches: there the division is NumPy's scalar
  division, which returns an infinity or a NaN (with a warning) when the divisor is
  zero. A non-finite float stays non-finite when a finite float is added to it or
  multiplies it.
\<close>

fun fadd :: "fval \<Rightarrow> fval \<Rightarrow> fval" where
  "fadd (Finite a) (Finite b) = Finite (a + b)"
| "fadd _ _ = NonFinite"

fun fmul :: "fval \<Rightarrow> fval \<Rightarrow> fval" where
  "fmul (Finite a) (Finite b) = Finite (a * b)"
| "fmul _ _ = NonFinite"

definition interpolate_sorted_homework ::
  "real list \<Rightarrow> real list \<Rightarrow> error + real list \<Rightarrow> real \<Rightarrow> error + fval" where
  "interpolate_sorted_homework x_sorted y_sorted s_result x_interp =
     bind_err (getitem x_sorted 0) (\<lambda>x_first.
     if x_interp \<le> x_first then
       (if length x_sorted > 1 then
          bind_err (getitem y_sorted 0) (\<lambda>y_0.
          bind_err (getitem y_sorted 1) (\<lambda>y_1.
          bind_err (getitem x_sorted 1) (\<lambda>x_1.
          Inr (fadd (Finite y_0)
                 (fmul (np_divide (y_1 - y_0) (x_1 - x_first)) (Finite (x_interp - x_first)))))))
        else map_sum id Finite (getitem y_sorted 0))
     else
       bind_err (getitem x_sorted (- 1)) (\<lambda>x_last.
       if x_interp \<ge> x_last then
         (if length x_sorted > 1 then
            bind_err (getitem y_sorted (- 1)) (\<lambda>y_last.
            bind_err (getitem y_sorted (- 2)) (\<lambda>y_prev.
            bind_err (getitem x_sorted (- 2)) (\<lambda>x_prev.
            Inr (fadd (Finite y_last)
                   (fmul (np_divide (y_last - y_prev) (x_last - x_prev))
                      (Finite (x_interp - x_last)))))))
          else map_sum id Finite (getitem y_sorted (- 1)))
       else
         bind_err s_result (\<lambda>s.
         map_sum id Finite (segment_value x_sorted y_sorted s x_interp))))"

definition akima_interpolate_npoints_homework ::
  "real list \<Rightarrow> real list \<Rightarrow> real \<Rightarrow> error + fval" where
  "akima_interpolate_npoints_homework x_data y_data x_interp =
     (if length x_data \<noteq> length y_data then Inl LengthMismatch
      else if length x_data < 2 then Inl InsufficientPoints
      else
        let sorted_indices = argsort x_data in
        bind_err (take_indices x_data sorted_indices) (\<lambda>x_sorted.
        bind_err (take_indices y_data sorted_indices) (\<lambda>y_sorted.
        interpolate_sorted_homework x_sorted y_sorted
          (calculate_spline_slopes x_sorted y_sorted) x_interp)))"

section \<open>Functions of the statements\<close>

text \<open>
  Akima's rule for an interior node as the specification words it, on the secant
  vector, and the effect of the interior loop as an update of the tangent vector. The
  loop of the code is proved to compute them.
\<close>

definition akima_weighted :: "real list \<Rightarrow> nat \<Rightarrow> real" where
  "akima_weighted m i =
     (let w1 = \<bar>m ! (i + 1) - m ! i\<bar>; w2 = \<bar>m ! (i - 1) - m ! (i - 2)\<bar>
      in if w1 + w2 = 0 then (m ! (i - 1) + m ! i) / 2
         else (w1 * m ! (i - 1) + w2 * m ! i) / (w1 + w2))"

definition write_interior :: "real list \<Rightarrow> int list \<Rightarrow> real list \<Rightarrow> real list" where
  "write_interior m is s = fold (\<lambda>i s. s[nat i := akima_weighted m (nat i)]) is s"

text \<open>
  The arrays \<open>x_sorted = x_data[sorted_indices]\<close> and \<open>y_sorted = y_data[sorted_indices]\<close>
  of the entry points, for \<open>x_data\<close> and \<open>y_data\<close> of equal length.
\<close>

definition sorted_xs :: "real list \<Rightarrow> real list" where
  "sorted_xs x_data = map (\<lambda>i. x_data ! i) (argsort x_data)"

definition sorted_ys :: "real list \<Rightarrow> real list \<Rightarrow> real list" where
  "sorted_ys x_data y_data = map (\<lambda>i. y_data ! i) (argsort x_data)"


section \<open>Array access within bounds\<close>

lemma getitem_in_range:
  "0 \<le> i \<Longrightarrow> i < int (length a) \<Longrightarrow> getitem a i = Inr (a ! nat i)"
  by (simp add: getitem_def)

lemma setitem_in_range:
  "0 \<le> i \<Longrightarrow> i < int (length a) \<Longrightarrow> setitem a i v = Inr (a[nat i := v])"
  by (simp add: setitem_def)

lemma getitem_from_end:
  "0 < k \<Longrightarrow> k \<le> int (length a) \<Longrightarrow> getitem a (- k) = Inr (a ! nat (int (length a) - k))"
  by (simp add: getitem_def Let_def)

lemma bind_err_Inr [simp]: "bind_err (Inr v) f = f v"
  by (simp add: bind_err_def)

lemma bind_err_Inl [simp]: "bind_err (Inl e) f = Inl e"
  by (simp add: bind_err_def)

lemma length_calculate_slopes:
  "length y = length x \<Longrightarrow> length (calculate_slopes x y) = length x - 1"
  by (simp add: calculate_slopes_def)

lemma nth_calculate_slopes:
  assumes "length y = length x" and "Suc i < length x"
  shows "calculate_slopes x y ! i =
           finite_or_zero (np_divide (y ! Suc i - y ! i) (x ! Suc i - x ! i))"
  using assms by (simp add: calculate_slopes_def nth_tl nth_butlast)

lemma interior_tangent_in_range:
  assumes "2 \<le> i" and "i + 1 < int (length m)"
  shows "interior_tangent m i = Inr (akima_weighted m (nat i))"
proof -
  have a: "getitem m (i + 1) = Inr (m ! (nat i + 1))"
    using assms by (simp add: getitem_in_range nat_add_distrib)
  have b: "getitem m i = Inr (m ! nat i)"
    using assms by (simp add: getitem_in_range)
  have c: "getitem m (i - 1) = Inr (m ! (nat i - 1))"
    using assms by (simp add: getitem_in_range nat_diff_distrib)
  have d: "getitem m (i - 2) = Inr (m ! (nat i - 2))"
    using assms by (simp add: getitem_in_range nat_diff_distrib)
  show ?thesis
    by (simp add: interior_tangent_def a b c d akima_weighted_def Let_def)
qed

lemma length_write_interior [simp]: "length (write_interior m is s) = length s"
  unfolding write_interior_def by (induction "is" arbitrary: s) auto

lemma nth_write_interior:
  assumes "j < length s" and "\<forall>i\<in>set is. 0 \<le> i"
  shows "write_interior m is s ! j = (if int j \<in> set is then akima_weighted m j else s ! j)"
  using assms unfolding write_interior_def
proof (induction "is" arbitrary: s)
  case Nil
  then show ?case by simp
next
  case (Cons i "is")
  have "nat i = j \<longleftrightarrow> i = int j" using Cons.prems(2) by auto
  then show ?case using Cons by (auto simp: nth_list_update)
qed

lemma interior_loop_in_range:
  assumes "\<forall>i\<in>set is. 2 \<le> i \<and> i + 1 < int (length m) \<and> i < int (length s)"
  shows "interior_loop m is s = Inr (write_interior m is s)"
  using assms unfolding write_interior_def
proof (induction "is" arbitrary: s)
  case Nil
  then show ?case by simp
next
  case (Cons i "is")
  then show ?case
    by (simp add: interior_tangent_in_range setitem_in_range)
qed

lemma spline_slopes_two:
  assumes "length y = length x" and "length x = 2"
  shows "calculate_spline_slopes x y =
           Inr [calculate_slopes x y ! 0, calculate_slopes x y ! 0]"
proof -
  have lm: "length (calculate_slopes x y) = 1"
    using assms by (simp add: length_calculate_slopes)
  have r: "replicate 2 (0::real) = [0, 0]"
    by (simp add: numeral_2_eq_2)
  show ?thesis
    using assms lm
    by (simp add: calculate_spline_slopes_def Let_def getitem_in_range setitem_in_range r)
qed

lemma spline_slopes_many:
  assumes "length y = length x" and "3 \<le> length x"
  shows "calculate_spline_slopes x y =
           Inr (let m = calculate_slopes x y; n = length x in
                (write_interior m [2..int n - 3]
                   ((replicate n 0)[0 := m ! 0, 1 := (m ! 0 + m ! 1) / 2]))
                [n - 2 := (m ! (n - 3) + m ! (n - 2)) / 2, n - 1 := m ! (n - 2)])"
proof -
  define m where "m = calculate_slopes x y"
  define n where "n = length x"
  have lm: "length m = n - 1"
    using assms by (simp add: m_def n_def length_calculate_slopes)
  have n3: "3 \<le> n" using assms by (simp add: n_def)
  have loop: "interior_loop m [2..int n - 3] s = Inr (write_interior m [2..int n - 3] s)"
    if "length s = n" for s
    by (rule interior_loop_in_range) (use lm that n3 in auto)
  have g0: "getitem m 0 = Inr (m ! 0)"
    using lm n3 by (simp add: getitem_in_range)
  have g1: "getitem m 1 = Inr (m ! 1)"
    using lm n3 by (simp add: getitem_in_range)
  have g3: "getitem m (int n - 3) = Inr (m ! (n - 3))"
    using lm n3 by (simp add: getitem_in_range nat_diff_distrib)
  have g2: "getitem m (int n - 2) = Inr (m ! (n - 2))"
    using lm n3 by (simp add: getitem_in_range nat_diff_distrib)
  have p0: "setitem (replicate n (0::real)) 0 v = Inr ((replicate n 0)[0 := v])" for v
    using n3 by (simp add: setitem_in_range)
  have p1: "setitem ((replicate n (0::real))[0 := u]) 1 v = Inr ((replicate n 0)[0 := u, 1 := v])" for u v
    using n3 by (simp add: setitem_in_range)
  have p2: "setitem s (int n - 2) v = Inr (s[n - 2 := v])" if "length s = n" for s v
    using n3 that by (simp add: setitem_in_range nat_diff_distrib)
  have p3: "setitem s (int n - 1) v = Inr (s[n - 1 := v])" if "length s = n" for s v
    using n3 that by (simp add: setitem_in_range nat_diff_distrib)
  show ?thesis
    unfolding calculate_spline_slopes_def Let_def m_def [symmetric] n_def [symmetric]
    using n3 by (simp add: g0 g1 g2 g3 p0 p1 p2 p3 loop)
qed

section \<open>Secant slopes (C8)\<close>

text \<open>
  Claim C8. For every pair of adjacent samples the slope \<open>calculate_slopes\<close> computes is
  \<open>(y[i+1] - y[i]) / (x[i+1] - x[i])\<close> when that ratio is finite, and 0 when it is not, in
  particular when \<open>x[i+1] - x[i] = 0\<close>. The function returns the vector of the \<open>n - 1\<close>
  slopes: it has no exception path.
\<close>

theorem calculate_slopes_secant:
  assumes "length y = length x"
  shows "length (calculate_slopes x y) = length x - 1 \<and>
         (\<forall>i. i + 1 < length x \<longrightarrow>
            calculate_slopes x y ! i =
              (if isfinite (np_divide (y ! (i + 1) - y ! i) (x ! (i + 1) - x ! i))
               then (y ! (i + 1) - y ! i) / (x ! (i + 1) - x ! i) else 0) \<and>
            (x ! (i + 1) - x ! i = 0 \<longrightarrow> calculate_slopes x y ! i = 0))"
  using assms
  by (simp add: length_calculate_slopes nth_calculate_slopes np_divide_def)

theorem calculate_slopes_secant_witness:
  "length [0, 1, 9 :: real] = length [0, 2, 2 :: real] \<and>
   length (calculate_slopes [0, 2, 2] [0, 1, 9]) = 2 \<and>
   calculate_slopes [0, 2, 2] [0, 1, 9] ! 0 = 1 / 2 \<and>
   calculate_slopes [0, 2, 2] [0, 1, 9] ! 1 = 0"
proof -
  have h: "length [0, 1, 9 :: real] = length [0, 2, 2 :: real]" by simp
  have n0: "(0::nat) + 1 < length [0, 2, 2 :: real]" by simp
  have n1: "(1::nat) + 1 < length [0, 2, 2 :: real]" by simp
  from calculate_slopes_secant [OF h] n0 n1
  have "length (calculate_slopes [0, 2, 2] [0, 1, 9]) = length [0, 2, 2 :: real] - 1"
    and "calculate_slopes [0, 2, 2] [0, 1, 9] ! 0 =
          (if isfinite (np_divide ([0, 1, 9] ! (0 + 1) - [0, 1, 9] ! 0) ([0, 2, 2] ! (0 + 1) - [0, 2, 2] ! 0))
           then ([0, 1, 9] ! (0 + 1) - [0, 1, 9] ! 0) / ([0, 2, 2] ! (0 + 1) - [0, 2, 2] ! 0) else 0)"
    and "[0, 2, 2 :: real] ! (1 + 1) - [0, 2, 2] ! 1 = 0 \<longrightarrow> calculate_slopes [0, 2, 2] [0, 1, 9] ! 1 = 0"
    by blast+
  then show ?thesis by (simp add: np_divide_def)
qed

section \<open>Akima tangents (C1)\<close>

lemma spline_slopes_value:
  assumes "length y = length x" and "2 \<le> length x"
  shows "\<exists>s. calculate_spline_slopes x y = Inr s \<and> length s = length x"
proof (cases "length x = 2")
  case True
  then show ?thesis using assms by (simp add: spline_slopes_two)
next
  case False
  then have "3 \<le> length x" using assms by simp
  then show ?thesis using assms by (simp add: spline_slopes_many Let_def)
qed

text \<open>
  Claim C1. For \<open>n \<ge> 2\<close> samples with secants \<open>m\<close> (of length \<open>n - 1\<close>),
  \<open>calculate_spline_slopes\<close> returns a tangent vector \<open>s\<close> of length \<open>n\<close> with
  \<open>s[0] = m[0]\<close> and \<open>s[n-1] = m[n-2]\<close>; for \<open>n = 2\<close> both tangents are \<open>m[0]\<close>; for
  \<open>n \<ge> 3\<close>, \<open>s[1] = (m[0] + m[1]) / 2\<close> and \<open>s[n-2] = (m[n-3] + m[n-2]) / 2\<close>; and for every
  interior node \<open>2 \<le> i \<le> n - 3\<close>, with \<open>w1 = |m[i+1] - m[i]|\<close> and
  \<open>w2 = |m[i-1] - m[i-2]|\<close>, \<open>s[i]\<close> is the average of \<open>m[i-1]\<close> and \<open>m[i]\<close> when
  \<open>w1 + w2 = 0\<close> and \<open>(w1 * m[i-1] + w2 * m[i]) / (w1 + w2)\<close> otherwise. The samples need
  not be sorted for this.
\<close>

theorem spline_slopes_rules:
  assumes "length y = length x" and "2 \<le> length x"
  shows "\<exists>s. calculate_spline_slopes x y = Inr s \<and> length s = length x \<and>
           (let m = calculate_slopes x y; n = length x in
              length m = n - 1 \<and>
              s ! 0 = m ! 0 \<and> s ! (n - 1) = m ! (n - 2) \<and>
              (n = 2 \<longrightarrow> s ! 1 = m ! 0) \<and>
              (3 \<le> n \<longrightarrow> s ! 1 = (m ! 0 + m ! 1) / 2 \<and>
                                s ! (n - 2) = (m ! (n - 3) + m ! (n - 2)) / 2) \<and>
              (\<forall>i. 2 \<le> i \<and> i + 3 \<le> n \<longrightarrow>
                 s ! i =
                   (let w1 = \<bar>m ! (i + 1) - m ! i\<bar>; w2 = \<bar>m ! (i - 1) - m ! (i - 2)\<bar>
                    in if w1 + w2 = 0 then (m ! (i - 1) + m ! i) / 2
                       else (w1 * m ! (i - 1) + w2 * m ! i) / (w1 + w2))))"
proof (cases "length x = 2")
  case True
  then show ?thesis
    using assms by (simp add: spline_slopes_two length_calculate_slopes Let_def)
next
  case False
  define m where "m = calculate_slopes x y"
  define n where "n = length x"
  have n3: "3 \<le> n" using False assms by (simp add: n_def)
  define s1 where "s1 = (replicate n (0::real))[0 := m ! 0, 1 := (m ! 0 + m ! 1) / 2]"
  define w where "w = write_interior m [2..int n - 3] s1"
  define s where "s = w[n - 2 := (m ! (n - 3) + m ! (n - 2)) / 2, n - 1 := m ! (n - 2)]"
  have eq: "calculate_spline_slopes x y = Inr s"
    using assms n3 by (simp add: spline_slopes_many Let_def s_def w_def s1_def m_def n_def)
  have ls1: "length s1 = n" by (simp add: s1_def)
  have lw: "length w = n" by (simp add: w_def ls1)
  have ls: "length s = n" by (simp add: s_def lw)
  have wj: "w ! j = (if int j \<in> set [2..int n - 3] then akima_weighted m j else s1 ! j)"
    if "j < n" for j
    unfolding w_def by (rule nth_write_interior) (use that ls1 in auto)
  have w0: "w ! 0 = m ! 0" using wj [of 0] n3 by (simp add: s1_def)
  have w1: "w ! 1 = (m ! 0 + m ! 1) / 2" using wj [of 1] n3 by (simp add: s1_def)
  have c0: "s ! 0 = m ! 0" using n3 lw w0 by (simp add: s_def nth_list_update)
  have cl: "s ! (n - 1) = m ! (n - 2)" using n3 lw by (simp add: s_def)
  have c1: "s ! 1 = (m ! 0 + m ! 1) / 2"
  proof (cases "n = 3")
    case True
    then show ?thesis using lw by (simp add: s_def nth_list_update)
  next
    case False
    then show ?thesis using n3 lw w1 by (simp add: s_def nth_list_update)
  qed
  have c2: "s ! (n - 2) = (m ! (n - 3) + m ! (n - 2)) / 2"
    using n3 lw by (simp add: s_def nth_list_update)
  have ci: "s ! i = akima_weighted m i" if "2 \<le> i" and "i + 3 \<le> n" for i
  proof -
    have "s ! i = w ! i" using that lw by (simp add: s_def nth_list_update)
    also have "\<dots> = akima_weighted m i" using wj [of i] that by auto
    finally show ?thesis .
  qed
  have lm: "length m = n - 1"
    using assms by (simp add: m_def n_def length_calculate_slopes)
  show ?thesis
    unfolding Let_def m_def [symmetric] n_def [symmetric]
    using eq ls lm c0 cl c1 c2 ci n3 by (simp add: akima_weighted_def Let_def)
qed

theorem spline_slopes_rules_witness:
  "length [0, 1, 4, 9, 16, 25 :: real] = length [0, 1, 2, 3, 4, 5 :: real] \<and>
   2 \<le> length [0, 1, 2, 3, 4, 5 :: real] \<and>
   (\<exists>s. calculate_spline_slopes [0, 1, 2, 3, 4, 5] [0, 1, 4, 9, 16, 25] = Inr s \<and>
        length s = 6 \<and> s ! 0 = 1 \<and> s ! 5 = 9)"
proof -
  have h1: "length [0, 1, 4, 9, 16, 25 :: real] = length [0, 1, 2, 3, 4, 5 :: real]" by simp
  have h2: "2 \<le> length [0, 1, 2, 3, 4, 5 :: real]" by simp
  have m: "calculate_slopes [0, 1, 2, 3, 4, 5] [0, 1, 4, 9, 16, 25] = [1, 3, 5, 7, 9]"
    by (simp add: calculate_slopes_def np_divide_def)
  from spline_slopes_rules [OF h1 h2]
  obtain s where e: "calculate_spline_slopes [0, 1, 2, 3, 4, 5] [0, 1, 4, 9, 16, 25] = Inr s"
    and l: "length s = length [0, 1, 2, 3, 4, 5 :: real]"
    and a: "s ! 0 = calculate_slopes [0, 1, 2, 3, 4, 5] [0, 1, 4, 9, 16, 25] ! 0"
    and b: "s ! (length [0, 1, 2, 3, 4, 5 :: real] - 1) =
            calculate_slopes [0, 1, 2, 3, 4, 5] [0, 1, 4, 9, 16, 25] !
              (length [0, 1, 2, 3, 4, 5 :: real] - 2)"
    unfolding Let_def by blast
  have "length s = 6" using l by simp
  moreover have "s ! 0 = 1" using a by (simp add: m)
  moreover have "s ! 5 = 9" using b by (simp add: m eval_nat_numeral)
  ultimately show ?thesis using e by simp
qed

section \<open>Segment location (C5)\<close>

lemma searchsorted_loop_spec:
  assumes "sorted a" and "lo \<le> hi" and "hi \<le> length a"
    and "\<forall>i<lo. a ! i < v" and "\<forall>i. hi \<le> i \<and> i < length a \<longrightarrow> v \<le> a ! i"
  shows "lo \<le> searchsorted_loop a v lo hi \<and> searchsorted_loop a v lo hi \<le> hi \<and>
         (\<forall>i<searchsorted_loop a v lo hi. a ! i < v) \<and>
         (\<forall>i. searchsorted_loop a v lo hi \<le> i \<and> i < length a \<longrightarrow> v \<le> a ! i)"
  using assms
proof (induction a v lo hi rule: searchsorted_loop.induct)
  case (1 a v lo hi)
  show ?case
  proof (cases "lo < hi")
    case False
    then have "searchsorted_loop a v lo hi = lo"
      by (subst searchsorted_loop.simps) simp
    then show ?thesis using False "1.prems" by auto
  next
    case True
    define mid where "mid = lo + (hi - lo) div 2"
    have mid: "lo \<le> mid" "mid < hi" using True by (auto simp: mid_def)
    show ?thesis
    proof (cases "a ! mid < v")
      case below: True
      have eq: "searchsorted_loop a v lo hi = searchsorted_loop a v (mid + 1) hi"
        using True below by (subst searchsorted_loop.simps) (simp add: mid_def Let_def)
      have low: "\<forall>i<mid + 1. a ! i < v"
      proof (intro allI impI)
        fix i assume "i < mid + 1"
        then have "a ! i \<le> a ! mid"
          using "1.prems"(1,3) mid by (intro sorted_nth_mono) auto
        then show "a ! i < v" using below by simp
      qed
      have "mid + 1 \<le> searchsorted_loop a v (mid + 1) hi \<and>
            searchsorted_loop a v (mid + 1) hi \<le> hi \<and>
            (\<forall>i<searchsorted_loop a v (mid + 1) hi. a ! i < v) \<and>
            (\<forall>i. searchsorted_loop a v (mid + 1) hi \<le> i \<and> i < length a \<longrightarrow> v \<le> a ! i)"
        using "1.IH"(1) [OF True mid_def below "1.prems"(1) _ "1.prems"(3) low "1.prems"(5)] mid
        by simp
      then show ?thesis using eq mid by auto
    next
      case above: False
      have eq: "searchsorted_loop a v lo hi = searchsorted_loop a v lo mid"
        using True above by (subst searchsorted_loop.simps) (simp add: mid_def Let_def)
      have high: "\<forall>i. mid \<le> i \<and> i < length a \<longrightarrow> v \<le> a ! i"
      proof (intro allI impI)
        fix i assume "mid \<le> i \<and> i < length a"
        then have "a ! mid \<le> a ! i"
          using "1.prems"(1) by (intro sorted_nth_mono) auto
        then show "v \<le> a ! i" using above by simp
      qed
      have "lo \<le> searchsorted_loop a v lo mid \<and>
            searchsorted_loop a v lo mid \<le> mid \<and>
            (\<forall>i<searchsorted_loop a v lo mid. a ! i < v) \<and>
            (\<forall>i. searchsorted_loop a v lo mid \<le> i \<and> i < length a \<longrightarrow> v \<le> a ! i)"
        using "1.IH"(2) [OF True mid_def above "1.prems"(1) _ _ "1.prems"(4) high] mid "1.prems"(3)
        by simp
      then show ?thesis using eq mid by auto
    qed
  qed
qed

lemma searchsorted_spec:
  assumes "sorted a"
  shows "searchsorted a v \<le> length a \<and>
         (\<forall>i<searchsorted a v. a ! i < v) \<and>
         (\<forall>i. searchsorted a v \<le> i \<and> i < length a \<longrightarrow> v \<le> a ! i)"
  using searchsorted_loop_spec [OF assms, of 0 "length a" v]
  by (simp add: searchsorted_def)

lemma segment_index_inside:
  assumes "sorted x" and "x ! 0 < q" and "q < x ! (length x - 1)"
  shows "1 \<le> searchsorted x q \<and> searchsorted x q + 1 \<le> length x \<and>
         segment_index x q = int (searchsorted x q) - 1"
proof -
  define r where "r = searchsorted x q"
  have sp: "r \<le> length x" "\<forall>i<r. x ! i < q" "\<forall>i. r \<le> i \<and> i < length x \<longrightarrow> q \<le> x ! i"
    using searchsorted_spec [OF assms(1), of q] by (simp_all add: r_def)
  have n: "2 \<le> length x"
  proof (rule ccontr)
    assume "\<not> 2 \<le> length x"
    then have "length x - 1 = 0" by simp
    then show False using assms(2,3) by simp
  qed
  have r1: "1 \<le> r"
  proof (rule ccontr)
    assume "\<not> 1 \<le> r"
    then have "r \<le> 0 \<and> 0 < length x" using n by linarith
    then have "q \<le> x ! 0" using sp(3) by blast
    then show False using assms(2) by simp
  qed
  have r2: "r + 1 \<le> length x"
  proof (rule ccontr)
    assume "\<not> r + 1 \<le> length x"
    then have "length x - 1 < r" using n by simp
    then have "x ! (length x - 1) < q" using sp(2) by blast
    then show False using assms(3) by simp
  qed
  show ?thesis
    using r1 r2 by (simp add: segment_index_def Let_def r_def [symmetric])
qed

text \<open>
  Claim C5, as the code has it. For sorted \<open>x\<close> and a query \<open>q\<close> with
  \<open>x[0] < q < x[n-1]\<close>, the segment-location step returns the unique index \<open>i\<close> in
  \<open>[0, n - 2]\<close> with \<open>x[i] < q \<le> x[i+1]\<close>: a query that equals an interior breakpoint
  \<open>x[k]\<close> is located in the segment that ends at \<open>x[k]\<close>.
\<close>

theorem segment_index_locates:
  assumes "sorted x" and "x ! 0 < q" and "q < x ! (length x - 1)"
  shows "0 \<le> segment_index x q \<and> segment_index x q \<le> int (length x) - 2 \<and>
         x ! nat (segment_index x q) < q \<and> q \<le> x ! (nat (segment_index x q) + 1) \<and>
         (\<forall>j. j + 1 < length x \<and> x ! j < q \<and> q \<le> x ! (j + 1) \<longrightarrow>
              int j = segment_index x q)"
proof -
  define r where "r = searchsorted x q"
  have sp: "\<forall>i<r. x ! i < q" "\<forall>i. r \<le> i \<and> i < length x \<longrightarrow> q \<le> x ! i"
    using searchsorted_spec [OF assms(1), of q] by (simp_all add: r_def)
  have ins: "1 \<le> r" "r + 1 \<le> length x" "segment_index x q = int r - 1"
    using segment_index_inside [OF assms] by (simp_all add: r_def)
  have idx: "nat (segment_index x q) = r - 1" using ins by simp
  have lo: "x ! (r - 1) < q" using sp(1) ins(1) by simp
  have hi: "q \<le> x ! r" using sp(2) ins(2) by simp
  have uniq: "int j = segment_index x q" if "j + 1 < length x" "x ! j < q" "q \<le> x ! (j + 1)" for j
  proof -
    have "j < r"
    proof (rule ccontr)
      assume "\<not> j < r"
      then have "q \<le> x ! j" using sp(2) that(1) by simp
      then show False using that(2) by simp
    qed
    moreover have "r \<le> j + 1"
    proof (rule ccontr)
      assume "\<not> r \<le> j + 1"
      then have "x ! (j + 1) < q" using sp(1) by simp
      then show False using that(3) by simp
    qed
    ultimately show ?thesis using ins(3) by simp
  qed
  have seg: "segment_index x q = int (r - 1)" using ins by simp
  have suc: "r - 1 + 1 = r" using ins by simp
  have bounds: "0 \<le> segment_index x q \<and> segment_index x q \<le> int (length x) - 2"
    using ins by simp
  have inside: "x ! nat (segment_index x q) < q \<and> q \<le> x ! (nat (segment_index x q) + 1)"
    unfolding seg nat_int suc using lo hi by simp
  show ?thesis
    using bounds inside uniq by blast
qed

theorem segment_index_locates_witness:
  "sorted [0, 1, 2 :: real] \<and> [0, 1, 2 :: real] ! 0 < 1 \<and>
   (1 :: real) < [0, 1, 2] ! (length [0, 1, 2 :: real] - 1) \<and>
   segment_index [0, 1, 2] 1 = 0 \<and> [0, 1, 2 :: real] ! 0 < 1 \<and> (1 :: real) \<le> [0, 1, 2] ! 1"
proof -
  have h1: "sorted [0, 1, 2 :: real]" by simp
  have h2: "[0, 1, 2 :: real] ! 0 < 1" by simp
  have h3: "(1 :: real) < [0, 1, 2] ! (length [0, 1, 2 :: real] - 1)" by simp
  have j: "(0::nat) + 1 < length [0, 1, 2 :: real] \<and> [0, 1, 2 :: real] ! 0 < 1 \<and>
           (1 :: real) \<le> [0, 1, 2] ! (0 + 1)" by simp
  have u: "\<forall>j. j + 1 < length [0, 1, 2 :: real] \<and> [0, 1, 2 :: real] ! j < 1 \<and>
               (1 :: real) \<le> [0, 1, 2] ! (j + 1) \<longrightarrow> int j = segment_index [0, 1, 2] 1"
    using segment_index_locates [OF h1 h2 h3] by (elim conjE)
  have "int 0 = segment_index [0, 1, 2] 1"
    using u [THEN spec, of 0] j by (elim impE) assumption+
  then show ?thesis using h1 by simp
qed

text \<open>
  The claim as stated fails at a breakpoint: for \<open>x = [0, 1, 2]\<close> and \<open>q = 1\<close> the step
  returns segment 0, and \<open>q < x[1]\<close> does not hold.
\<close>

theorem segment_index_half_open_counterexample:
  "\<not> (\<forall>x q. sorted x \<and> x ! 0 < q \<and> q < x ! (length x - 1) \<longrightarrow>
          x ! nat (segment_index x q) \<le> q \<and> q < x ! (nat (segment_index x q) + 1))"
proof
  assume a: "\<forall>x q. sorted x \<and> x ! 0 < q \<and> q < x ! (length x - 1) \<longrightarrow>
          x ! nat (segment_index x q) \<le> q \<and> q < x ! (nat (segment_index x q) + 1)"
  have s: "segment_index [0, 1, 2] 1 = 0" by code_simp
  have "sorted [0, 1, 2 :: real] \<and> [0, 1, 2 :: real] ! 0 < 1 \<and>
        (1 :: real) < [0, 1, 2] ! (length [0, 1, 2 :: real] - 1)" by simp
  with a [THEN spec, of "[0, 1, 2]", THEN spec, of 1]
  have "(1 :: real) < [0, 1, 2] ! (nat (segment_index [0, 1, 2] 1) + 1)"
    by (elim impE conjE) (intro conjI, assumption+)
  then show False by (simp add: s)
qed

section \<open>Cubic coefficients and evaluation on sorted samples\<close>

lemma cubic_coefficients_in_range:
  assumes "0 \<le> i" and "i + 1 < int (length x)"
    and "length y = length x" and "length s = length x"
    and "x ! (nat i + 1) \<noteq> x ! nat i"
  shows "calculate_cubic_coefficients x y s i =
           Inr (let h = x ! (nat i + 1) - x ! nat i;
                    m_i = (y ! (nat i + 1) - y ! nat i) / h
                in (y ! nat i, s ! nat i,
                    (3 * m_i - 2 * s ! nat i - s ! (nat i + 1)) / h,
                    (s ! nat i + s ! (nat i + 1) - 2 * m_i) / (h * h)))"
proof -
  have n: "nat (i + 1) = nat i + 1" using assms(1) by (simp add: nat_add_distrib)
  have g: "getitem a i = Inr (a ! nat i)" "getitem a (i + 1) = Inr (a ! (nat i + 1))"
    if "length a = length x" for a :: "real list"
    using assms(1,2) that by (simp_all add: getitem_in_range n)
  show ?thesis
    using assms(5)
    by (simp add: calculate_cubic_coefficients_def g assms(3,4) Let_def)
qed

lemma cubic_coefficients_duplicate:
  assumes "0 \<le> i" and "i + 1 < int (length x)"
    and "length y = length x" and "length s = length x"
    and "x ! (nat i + 1) = x ! nat i"
  shows "calculate_cubic_coefficients x y s i = Inl DegenerateInput"
proof -
  have n: "nat (i + 1) = nat i + 1" using assms(1) by (simp add: nat_add_distrib)
  have g: "getitem a i = Inr (a ! nat i)" "getitem a (i + 1) = Inr (a ! (nat i + 1))"
    if "length a = length x" for a :: "real list"
    using assms(1,2) that by (simp_all add: getitem_in_range n)
  show ?thesis
    using assms(5)
    by (simp add: calculate_cubic_coefficients_def g assms(3,4) Let_def)
qed

lemma cubic_deriv:
  "DERIV (\<lambda>t. cubic (a, b, c, d) (t - x0)) t :> b + 2 * c * (t - x0) + 3 * d * (t - x0) * (t - x0)"
  unfolding cubic_def prod.case
  by (auto intro!: derivative_eq_intros simp: algebra_simps)

lemma hermite_value_right:
  fixes h :: real
  assumes "h \<noteq> 0"
  shows "cubic (y0, s0, (3 * ((y1 - y0) / h) - 2 * s0 - s1) / h,
                (s0 + s1 - 2 * ((y1 - y0) / h)) / (h * h)) h = y1"
  using assms by (simp add: cubic_def field_simps)

lemma hermite_slope_right:
  fixes h :: real
  assumes "h \<noteq> 0"
  shows "s0 + 2 * ((3 * ((y1 - y0) / h) - 2 * s0 - s1) / h) * h
            + 3 * ((s0 + s1 - 2 * ((y1 - y0) / h)) / (h * h)) * h * h = s1"
  using assms by (simp add: field_simps)

lemma interpolate_sorted_low:
  assumes "length ys = length xs" and "2 \<le> length xs" and "q \<le> xs ! 0"
  shows "interpolate_sorted xs ys sres q =
           Inr (if xs ! 1 - xs ! 0 = 0 then ys ! 0
                else ys ! 0 + (ys ! 1 - ys ! 0) / (xs ! 1 - xs ! 0) * (q - xs ! 0))"
proof -
  have p: "0 < length xs" "1 < length xs" using assms(2) by linarith+
  have g: "getitem a 0 = Inr (a ! 0)" "getitem a 1 = Inr (a ! 1)"
    if "length a = length xs" for a :: "real list"
    using p that by (simp_all add: getitem_in_range)
  show ?thesis
    using assms(2,3) by (simp add: interpolate_sorted_def g assms(1) Let_def)
qed

lemma interpolate_sorted_high:
  assumes "length ys = length xs" and "2 \<le> length xs"
    and "xs ! 0 < q" and "xs ! (length xs - 1) \<le> q"
  shows "interpolate_sorted xs ys sres q =
           Inr (if xs ! (length xs - 1) - xs ! (length xs - 2) = 0 then ys ! (length xs - 1)
                else ys ! (length xs - 1) +
                     (ys ! (length xs - 1) - ys ! (length xs - 2)) /
                     (xs ! (length xs - 1) - xs ! (length xs - 2)) * (q - xs ! (length xs - 1)))"
proof -
  have p: "0 < length xs" using assms(2) by linarith
  have g0: "getitem xs 0 = Inr (xs ! 0)"
    using p by (simp add: getitem_in_range)
  have g: "getitem a (- 1) = Inr (a ! (length xs - 1))" "getitem a (- 2) = Inr (a ! (length xs - 2))"
    if "length a = length xs" for a :: "real list"
    using assms(2) that getitem_from_end [of 1 a] getitem_from_end [of 2 a]
    by (simp_all add: nat_diff_distrib)
  show ?thesis
    using assms(2,3,4) by (simp add: interpolate_sorted_def g0 g assms(1) Let_def)
qed

lemma interpolate_sorted_inside:
  assumes "sorted xs" and "length ys = length xs"
    and "xs ! 0 < q" and "q < xs ! (length xs - 1)"
    and "sres = Inr s" and "length s = length xs"
  shows "interpolate_sorted xs ys sres q =
           Inr (let i = nat (segment_index xs q);
                    h = xs ! (i + 1) - xs ! i;
                    m_i = (ys ! (i + 1) - ys ! i) / h
                in cubic (ys ! i, s ! i,
                          (3 * m_i - 2 * s ! i - s ! (i + 1)) / h,
                          (s ! i + s ! (i + 1) - 2 * m_i) / (h * h)) (q - xs ! i))"
proof -
  define idx where "idx = segment_index xs q"
  have loc: "0 \<le> idx" "idx \<le> int (length xs) - 2" "xs ! nat idx < q" "q \<le> xs ! (nat idx + 1)"
    using segment_index_locates [OF assms(1,3,4)] by (simp_all add: idx_def)
  have n: "2 \<le> length xs" using loc(1,2) by simp
  have ne: "xs ! (nat idx + 1) \<noteq> xs ! nat idx" using loc(3,4) by simp
  have co: "calculate_cubic_coefficients xs ys s idx =
           Inr (let h = xs ! (nat idx + 1) - xs ! nat idx;
                    m_i = (ys ! (nat idx + 1) - ys ! nat idx) / h
                in (ys ! nat idx, s ! nat idx,
                    (3 * m_i - 2 * s ! nat idx - s ! (nat idx + 1)) / h,
                    (s ! nat idx + s ! (nat idx + 1) - 2 * m_i) / (h * h)))"
    by (rule cubic_coefficients_in_range) (use loc assms ne in auto)
  have gi: "getitem xs idx = Inr (xs ! nat idx)"
    using loc by (simp add: getitem_in_range)
  have p: "0 < length xs" using n by linarith
  have g0: "getitem xs 0 = Inr (xs ! 0)"
    using p by (simp add: getitem_in_range)
  have gl: "getitem xs (- 1) = Inr (xs ! (length xs - 1))"
    using n getitem_from_end [of 1 xs] by (simp add: nat_diff_distrib)
  have sv: "segment_value xs ys s q =
           Inr (let i = nat idx;
                    h = xs ! (i + 1) - xs ! i;
                    m_i = (ys ! (i + 1) - ys ! i) / h
                in cubic (ys ! i, s ! i,
                          (3 * m_i - 2 * s ! i - s ! (i + 1)) / h,
                          (s ! i + s ! (i + 1) - 2 * m_i) / (h * h)) (q - xs ! i))"
    unfolding segment_value_def idx_def [symmetric] Let_def co [unfolded Let_def] gi
    by simp
  show ?thesis
    using assms(3,4)
    by (simp add: interpolate_sorted_def g0 gl assms(5) sv idx_def)
qed

section \<open>The joint sort\<close>

lemma mset_argsort: "mset (argsort x) = mset [0..<length x]"
  by (simp add: argsort_def)

lemma set_argsort: "set (argsort x) = {0..<length x}"
  by (simp add: argsort_def)

lemma length_argsort: "length (argsort x) = length x"
  by (simp add: argsort_def)

lemma take_indices_argsort:
  assumes "length x \<le> length a"
  shows "take_indices a (argsort x) = Inr (map (\<lambda>i. a ! i) (argsort x))"
  using assms by (auto simp: take_indices_def list_all_iff set_argsort)

lemma length_sorted_xs [simp]: "length (sorted_xs x) = length x"
  by (simp add: sorted_xs_def length_argsort)

lemma length_sorted_ys [simp]: "length (sorted_ys x y) = length x"
  by (simp add: sorted_ys_def length_argsort)

lemma sorted_sorted_xs: "sorted (sorted_xs x)"
  unfolding sorted_xs_def argsort_def by (rule sorted_sort_key)

lemma mset_sorted_xs: "mset (sorted_xs x) = mset x"
proof -
  have "mset (sorted_xs x) = image_mset (\<lambda>i. x ! i) (mset (argsort x))"
    by (simp add: sorted_xs_def)
  also have "\<dots> = mset (map (\<lambda>i. x ! i) [0..<length x])"
    by (simp add: mset_argsort)
  also have "\<dots> = mset x"
    by (simp add: map_nth)
  finally show ?thesis .
qed

lemma sorted_xs_sort: "sorted_xs x = sort x"
  by (rule properties_for_sort [symmetric]) (simp_all add: mset_sorted_xs sorted_sorted_xs)

lemma map_insort_key:
  "map g (insort_key (\<lambda>i. f (g i)) a xs) = insort_key f (g a) (map g xs)"
  by (induction xs) auto

lemma map_sort_key:
  "map g (sort_key (\<lambda>i. f (g i)) xs) = sort_key f (map g xs)"
  by (induction xs) (auto simp: map_insort_key)

lemma zip_sorted:
  assumes "length y = length x"
  shows "zip (sorted_xs x) (sorted_ys x y) = sort_key fst (zip x y)"
proof -
  have "zip (sorted_xs x) (sorted_ys x y) = map (\<lambda>i. (x ! i, y ! i)) (argsort x)"
    by (simp add: sorted_xs_def sorted_ys_def zip_map_map zip_same_conv_map)
  also have "\<dots> = map (\<lambda>i. (x ! i, y ! i)) (sort_key (\<lambda>i. fst (x ! i, y ! i)) [0..<length x])"
    by (simp add: argsort_def)
  also have "\<dots> = sort_key fst (map (\<lambda>i. (x ! i, y ! i)) [0..<length x])"
    by (rule map_sort_key)
  also have "map (\<lambda>i. (x ! i, y ! i)) [0..<length x] = zip x y"
    using assms by (intro nth_equalityI) auto
  finally show ?thesis .
qed

lemma sample_position:
  assumes "j < length x"
  shows "\<exists>k<length x. sorted_xs x ! k = x ! j \<and> sorted_ys x y ! k = y ! j"
proof -
  have "j \<in> set (argsort x)" using assms by (simp add: set_argsort)
  then obtain k where "k < length (argsort x)" and "argsort x ! k = j"
    by (auto simp: in_set_conv_nth)
  then show ?thesis
    by (auto simp: sorted_xs_def sorted_ys_def length_argsort)
qed

lemma distinct_sorted_xs: "distinct x \<Longrightarrow> distinct (sorted_xs x)"
  by (simp add: sorted_xs_sort)

lemma strict_sorted_nth:
  assumes "sorted xs" and "distinct xs" and "i < j" and "j < length xs"
  shows "xs ! i < xs ! j"
proof -
  have "xs ! i \<le> xs ! j" using assms by (intro sorted_nth_mono) auto
  moreover have "xs ! i \<noteq> xs ! j" using assms by (auto simp: nth_eq_iff_index_eq)
  ultimately show ?thesis by simp
qed

lemma npoints_unfold:
  assumes "length y = length x" and "2 \<le> length x"
  shows "akima_interpolate_npoints x y q =
           interpolate_sorted (sorted_xs x) (sorted_ys x y)
             (calculate_spline_slopes (sorted_xs x) (sorted_ys x y)) q"
  using assms
  by (simp add: akima_interpolate_npoints_def take_indices_argsort sorted_xs_def sorted_ys_def Let_def)

lemma fourpoints_unfold:
  assumes "length x = 4" and "length y = 4"
  shows "akima_interpolate_4points x y q =
           interpolate_sorted (sorted_xs x) (sorted_ys x y)
             (calculate_spline_slopes (sorted_xs x) (sorted_ys x y)) q"
  using assms
  by (simp add: akima_interpolate_4points_def take_indices_argsort sorted_xs_def sorted_ys_def Let_def)


section \<open>Hermite interpolation (C2)\<close>

lemma interpolate_sorted_at_sample:
  assumes "sorted xs" and "distinct xs" and "length ys = length xs"
    and "2 \<le> length xs" and "k < length xs"
  shows "interpolate_sorted xs ys (calculate_spline_slopes xs ys) (xs ! k) = Inr (ys ! k)"
proof -
  define n where "n = length xs"
  have n2: "2 \<le> n" using assms(4) by (simp add: n_def)
  have strict: "xs ! i < xs ! j" if "i < j" "j < n" for i j
    using strict_sorted_nth [OF assms(1,2) that(1)] that(2) by (simp add: n_def)
  have "k = 0 \<or> (k = n - 1 \<and> 0 < k) \<or> (0 < k \<and> k < n - 1)"
    using assms(5) unfolding n_def by linarith
  then consider "k = 0" | "k = n - 1" "0 < k" | "0 < k" "k < n - 1"
    by blast
  then show ?thesis
  proof cases
    case 1
    have "xs ! 0 < xs ! 1" using strict [of 0 1] n2 by simp
    then show ?thesis
      using 1 interpolate_sorted_low [OF assms(3,4), of "xs ! 0"] by simp
  next
    case 2
    have a: "xs ! 0 < xs ! k" using strict [of 0 k] 2 assms(5) by (simp add: n_def)
    have b: "xs ! (n - 2) < xs ! (n - 1)" using strict [of "n - 2" "n - 1"] n2 by simp
    show ?thesis
      using interpolate_sorted_high [OF assms(3,4), of "xs ! k"] a b 2
      by (simp add: n_def [symmetric])
  next
    case 3
    have a: "xs ! 0 < xs ! k" using strict [of 0 k] 3 by simp
    have b: "xs ! k < xs ! (n - 1)" using strict [of k "n - 1"] 3 n2 by simp
    obtain s where s: "calculate_spline_slopes xs ys = Inr s" "length s = length xs"
      using spline_slopes_value [OF assms(3,4)] by auto
    have c: "xs ! (k - 1) < xs ! k" using strict [of "k - 1" k] 3 by simp
    have "(k - 1) + 1 < length xs \<and> xs ! (k - 1) < xs ! k \<and> xs ! k \<le> xs ! ((k - 1) + 1)"
      using 3 c by (simp add: n_def)
    then have "int (k - 1) = segment_index xs (xs ! k)"
      using segment_index_locates [OF assms(1) a b [unfolded n_def]] by blast
    then have idx: "nat (segment_index xs (xs ! k)) = k - 1" by simp
    have k1: "k - 1 + 1 = k" using 3 by simp
    have h: "xs ! k - xs ! (k - 1) \<noteq> 0" using c by simp
    have "interpolate_sorted xs ys (calculate_spline_slopes xs ys) (xs ! k) =
            Inr (cubic (ys ! (k - 1), s ! (k - 1),
                   (3 * ((ys ! k - ys ! (k - 1)) / (xs ! k - xs ! (k - 1)))
                      - 2 * s ! (k - 1) - s ! k) / (xs ! k - xs ! (k - 1)),
                   (s ! (k - 1) + s ! k
                      - 2 * ((ys ! k - ys ! (k - 1)) / (xs ! k - xs ! (k - 1)))) /
                   ((xs ! k - xs ! (k - 1)) * (xs ! k - xs ! (k - 1))))
                  (xs ! k - xs ! (k - 1)))"
      using interpolate_sorted_inside [OF assms(1,3) a b [unfolded n_def] s]
      unfolding idx Let_def k1 .
    then show ?thesis
      unfolding hermite_value_right [OF h] .
  qed
qed

text \<open>
  Claim C2. Where \<open>x[i+1] \<noteq> x[i]\<close>, the coefficients \<open>calculate_cubic_coefficients\<close>
  returns for segment \<open>i\<close> define a cubic \<open>P\<close> in \<open>x - x[i]\<close> with \<open>P(x[i]) = y[i]\<close>,
  \<open>P(x[i+1]) = y[i+1]\<close>, \<open>P'(x[i]) = s[i]\<close> and \<open>P'(x[i+1]) = s[i+1]\<close>, in exact arithmetic.
  Consequently, for a dataset with pairwise distinct \<open>x\<close>, the interpolation at the \<open>x\<close> of
  any original sample returns the \<open>y\<close> of that sample.
\<close>

theorem cubic_coefficients_hermite:
  "(i + 1 < length x \<and> length y = length x \<and> length s = length x \<and> x ! (i + 1) \<noteq> x ! i \<longrightarrow>
      (\<exists>k. calculate_cubic_coefficients x y s (int i) = Inr k \<and>
           cubic k (x ! i - x ! i) = y ! i \<and>
           cubic k (x ! (i + 1) - x ! i) = y ! (i + 1) \<and>
           DERIV (\<lambda>t. cubic k (t - x ! i)) (x ! i) :> s ! i \<and>
           DERIV (\<lambda>t. cubic k (t - x ! i)) (x ! (i + 1)) :> s ! (i + 1))) \<and>
   (distinct x_data \<and> length y_data = length x_data \<and> 2 \<le> length x_data \<and>
    j < length x_data \<longrightarrow>
      akima_interpolate_npoints x_data y_data (x_data ! j) = Inr (y_data ! j))"
proof (intro conjI impI)
  assume a: "i + 1 < length x \<and> length y = length x \<and> length s = length x \<and>
             x ! (i + 1) \<noteq> x ! i"
  define h where "h = x ! (i + 1) - x ! i"
  define m_i where "m_i = (y ! (i + 1) - y ! i) / h"
  define c where "c = (3 * m_i - 2 * s ! i - s ! (i + 1)) / h"
  define d where "d = (s ! i + s ! (i + 1) - 2 * m_i) / (h * h)"
  have h0: "h \<noteq> 0" using a by (simp add: h_def)
  have co: "calculate_cubic_coefficients x y s (int i) = Inr (y ! i, s ! i, c, d)"
    using cubic_coefficients_in_range [of "int i" x y s] a
    by (simp add: Let_def h_def m_i_def c_def d_def)
  have v0: "cubic (y ! i, s ! i, c, d) (x ! i - x ! i) = y ! i"
    by (simp add: cubic_def)
  have v1: "cubic (y ! i, s ! i, c, d) h = y ! (i + 1)"
    unfolding c_def d_def m_i_def by (rule hermite_value_right [OF h0])
  have d0: "DERIV (\<lambda>t. cubic (y ! i, s ! i, c, d) (t - x ! i)) (x ! i) :> s ! i"
    using cubic_deriv [of "y ! i" "s ! i" c d "x ! i" "x ! i"] by simp
  have "s ! i + 2 * c * h + 3 * d * h * h = s ! (i + 1)"
    unfolding c_def d_def m_i_def by (rule hermite_slope_right [OF h0])
  then have d1: "DERIV (\<lambda>t. cubic (y ! i, s ! i, c, d) (t - x ! i)) (x ! (i + 1)) :> s ! (i + 1)"
    using cubic_deriv [of "y ! i" "s ! i" c d "x ! i" "x ! (i + 1)"] by (simp add: h_def)
  show "\<exists>k. calculate_cubic_coefficients x y s (int i) = Inr k \<and>
           cubic k (x ! i - x ! i) = y ! i \<and>
           cubic k (x ! (i + 1) - x ! i) = y ! (i + 1) \<and>
           DERIV (\<lambda>t. cubic k (t - x ! i)) (x ! i) :> s ! i \<and>
           DERIV (\<lambda>t. cubic k (t - x ! i)) (x ! (i + 1)) :> s ! (i + 1)"
    using co v0 v1 d0 d1 unfolding h_def by blast
next
  assume b: "distinct x_data \<and> length y_data = length x_data \<and> 2 \<le> length x_data \<and>
             j < length x_data"
  then obtain k where k: "k < length x_data" "sorted_xs x_data ! k = x_data ! j"
      "sorted_ys x_data y_data ! k = y_data ! j"
    using sample_position [of j x_data y_data] by auto
  have "interpolate_sorted (sorted_xs x_data) (sorted_ys x_data y_data)
          (calculate_spline_slopes (sorted_xs x_data) (sorted_ys x_data y_data))
          (sorted_xs x_data ! k) = Inr (sorted_ys x_data y_data ! k)"
    by (rule interpolate_sorted_at_sample)
       (use b k in \<open>simp_all add: sorted_sorted_xs distinct_sorted_xs\<close>)
  then show "akima_interpolate_npoints x_data y_data (x_data ! j) = Inr (y_data ! j)"
    using b k by (simp add: npoints_unfold)
qed

theorem cubic_coefficients_hermite_witness:
  "(\<exists>k. calculate_cubic_coefficients [0, 1, 2, 3] [0, 1, 4, 9] [1, 2, 4, 5] (int 1) = Inr k \<and>
        cubic k (2 - 1) = 4 \<and> DERIV (\<lambda>t. cubic k (t - 1)) 2 :> 4) \<and>
   akima_interpolate_npoints [0, 1, 2, 3] [0, 1, 4, 9] 2 = Inr 4"
proof -
  have h1: "(1::nat) + 1 < length [0, 1, 2, 3 :: real] \<and>
            length [0, 1, 4, 9 :: real] = length [0, 1, 2, 3 :: real] \<and>
            length [1, 2, 4, 5 :: real] = length [0, 1, 2, 3 :: real] \<and>
            [0, 1, 2, 3 :: real] ! (1 + 1) \<noteq> [0, 1, 2, 3] ! 1" by simp
  have h2: "distinct [0, 1, 2, 3 :: real] \<and>
            length [0, 1, 4, 9 :: real] = length [0, 1, 2, 3 :: real] \<and>
            2 \<le> length [0, 1, 2, 3 :: real] \<and> (2::nat) < length [0, 1, 2, 3 :: real]" by simp
  note t = cubic_coefficients_hermite [of 1 "[0, 1, 2, 3]" "[0, 1, 4, 9]" "[1, 2, 4, 5]"
      "[0, 1, 2, 3]" "[0, 1, 4, 9]" 2]
  from t h1 obtain k where
    "calculate_cubic_coefficients [0, 1, 2, 3] [0, 1, 4, 9] [1, 2, 4, 5] (int 1) = Inr k"
    "cubic k ([0, 1, 2, 3] ! (1 + 1) - [0, 1, 2, 3] ! 1) = [0, 1, 4, 9] ! (1 + 1)"
    "DERIV (\<lambda>t. cubic k (t - [0, 1, 2, 3] ! 1)) ([0, 1, 2, 3] ! (1 + 1)) :> [1, 2, 4, 5] ! (1 + 1)"
    by blast
  then have p1: "\<exists>k. calculate_cubic_coefficients [0, 1, 2, 3] [0, 1, 4, 9] [1, 2, 4, 5] (int 1) = Inr k \<and>
        cubic k (2 - 1) = 4 \<and> DERIV (\<lambda>t. cubic k (t - 1)) 2 :> 4"
    by (intro exI [of _ k]) simp
  from t h2 have "akima_interpolate_npoints [0, 1, 2, 3] [0, 1, 4, 9] ([0, 1, 2, 3] ! 2) =
      Inr ([0, 1, 4, 9] ! 2)" by blast
  then have p2: "akima_interpolate_npoints [0, 1, 2, 3] [0, 1, 4, 9] 2 = Inr 4" by simp
  show ?thesis using p1 p2 by blast
qed

section \<open>Every validated dataset yields a value\<close>

lemma segment_index_clamped:
  assumes "2 \<le> length xs"
  shows "0 \<le> segment_index xs q \<and> segment_index xs q \<le> int (length xs) - 2"
  using assms by (simp add: segment_index_def Let_def)

lemma interpolate_sorted_value:
  assumes "sorted xs" and "length ys = length xs" and "2 \<le> length xs"
  shows "\<exists>v. interpolate_sorted xs ys (calculate_spline_slopes xs ys) q = Inr v"
proof -
  consider "q \<le> xs ! 0" | "xs ! 0 < q" "xs ! (length xs - 1) \<le> q"
    | "xs ! 0 < q" "q < xs ! (length xs - 1)"
    by linarith
  then show ?thesis
  proof cases
    case 1
    then show ?thesis using interpolate_sorted_low [OF assms(2,3)] by simp
  next
    case 2
    then show ?thesis using interpolate_sorted_high [OF assms(2,3)] by simp
  next
    case 3
    obtain s where s: "calculate_spline_slopes xs ys = Inr s" "length s = length xs"
      using spline_slopes_value [OF assms(2,3)] by auto
    show ?thesis
      using interpolate_sorted_inside [OF assms(1,2) 3 s] by simp
  qed
qed

lemma npoints_value:
  assumes "length y = length x" and "2 \<le> length x"
  shows "\<exists>v. akima_interpolate_npoints x y q = Inr v"
  using interpolate_sorted_value [of "sorted_xs x" "sorted_ys x y" q] assms
  by (simp add: npoints_unfold sorted_sorted_xs)

lemma sorted_xs_pair: "sorted_xs [1, 1] = [1, 1]"
  by (simp add: sorted_xs_sort)

lemma sorted_ys_pair: "sorted_ys [1, 1] [5, 7] = [5, 7]"
  by (simp add: sorted_ys_def argsort_def)

section \<open>Duplicate abscissae (C4)\<close>

text \<open>
  The queries of the model are the finite floats. For such a query one of the two
  range tests of the entry points fires when the boundary samples coincide. Only a
  query that fails both tests (a NaN, which compares false with everything) reaches the
  cubic of a zero-width segment, and that raises:
\<close>

lemma coincident_segment_raises:
  assumes "length s = 2"
  shows "segment_value [1, 1] [5, 7] s q = Inl DegenerateInput"
proof -
  have "0 \<le> segment_index [1, 1] q \<and> segment_index [1, 1] q \<le> int (length [1, 1 :: real]) - 2"
    by (rule segment_index_clamped) simp
  then have i: "segment_index [1, 1] q = 0" by simp
  have "calculate_cubic_coefficients [1, 1] [5, 7] s 0 = Inl DegenerateInput"
    using cubic_coefficients_duplicate [of 0 "[1, 1]" "[5, 7]" s] assms by simp
  then show ?thesis
    by (simp add: segment_value_def i)
qed

text \<open>
  Claim C4, as the code has it, for every finite query. For \<open>x = [1, 1]\<close>,
  \<open>y = [5, 7]\<close> the interpolation raises nothing: it returns 5 for every finite query
  \<open>q \<le> 1\<close> and 7 for every finite query \<open>q > 1\<close> (the boundary \<open>y\<close>, by the test
  \<open>dx == 0\<close> of the extrapolation branches; the sort keeps samples of equal \<open>x\<close> in
  their input order). More generally a dataset that passes the length checks yields a
  value for every finite query, with or without duplicate \<open>x\<close> values: the segment
  located for a query strictly inside the range has \<open>x[i] < q \<le> x[i+1]\<close>, so the test
  \<open>h == 0\<close> of \<open>calculate_cubic_coefficients\<close> does not fire there. A query that is
  not a finite float is outside this statement.
\<close>

theorem duplicate_x_yields_value:
  "akima_interpolate_npoints [1, 1] [5, 7] q = Inr (if q \<le> 1 then 5 else 7) \<and>
   (length y = length x \<and> 2 \<le> length x \<longrightarrow>
      (\<exists>v. akima_interpolate_npoints x y q' = Inr v))"
proof (intro conjI impI)
  have u: "akima_interpolate_npoints [1, 1] [5, 7] q =
           interpolate_sorted [1, 1] [5, 7] (calculate_spline_slopes [1, 1] [5, 7]) q"
    using npoints_unfold [of "[5, 7]" "[1, 1]" q]
    by (simp add: sorted_xs_pair sorted_ys_pair)
  show "akima_interpolate_npoints [1, 1] [5, 7] q = Inr (if q \<le> 1 then 5 else 7)"
  proof (cases "q \<le> 1")
    case True
    then show ?thesis
      using interpolate_sorted_low [of "[5, 7]" "[1, 1]" q] by (simp add: u)
  next
    case False
    then show ?thesis
      using interpolate_sorted_high [of "[5, 7]" "[1, 1]" q] by (simp add: u)
  qed
next
  assume "length y = length x \<and> 2 \<le> length x"
  then show "\<exists>v. akima_interpolate_npoints x y q' = Inr v"
    using npoints_value by blast
qed

theorem duplicate_x_yields_value_witness:
  "akima_interpolate_npoints [1, 1] [5, 7] 3 = Inr 7 \<and>
   (\<exists>v. akima_interpolate_npoints [0, 2, 2, 5] [1, 3, 4, 0] 2 = Inr v)"
proof -
  have h: "length [1, 3, 4, 0 :: real] = length [0, 2, 2, 5 :: real] \<and>
           2 \<le> length [0, 2, 2, 5 :: real]" by simp
  note t = duplicate_x_yields_value [of 3 "[1, 3, 4, 0]" "[0, 2, 2, 5]" 2]
  from t have "akima_interpolate_npoints [1, 1] [5, 7] 3 = Inr (if (3::real) \<le> 1 then 5 else 7)"
    by (rule conjunct1)
  then have a: "akima_interpolate_npoints [1, 1] [5, 7] 3 = Inr 7" by simp
  from t h have b: "\<exists>v. akima_interpolate_npoints [0, 2, 2, 5] [1, 3, 4, 0] 2 = Inr v"
    by blast
  show ?thesis using a b by (rule conjI)
qed

text \<open>
  The claim as stated fails on its own scenario: with the query 0 the dataset
  \<open>x = [1, 1]\<close>, \<open>y = [5, 7]\<close> yields 5, not an error.
\<close>

theorem duplicate_x_not_rejected_counterexample:
  "akima_interpolate_npoints [1, 1] [5, 7] 0 = Inr 5 \<and>
   akima_interpolate_npoints [1, 1] [5, 7] 0 \<noteq> Inl DegenerateInput"
  by code_simp

section \<open>Array indices stay within bounds (C10)\<close>

text \<open>
  Claim C10. For every input that passes the length checks (\<open>n \<ge> 2\<close>): the clamped
  segment index satisfies \<open>0 \<le> idx \<le> n - 2\<close>, so \<open>idx\<close> and \<open>idx + 1\<close> are below \<open>n\<close>; every
  index \<open>i\<close> of the interior loop of \<open>calculate_spline_slopes\<close> has \<open>0 \<le> i - 2\<close> and
  \<open>i + 1 \<le> n - 2\<close>, the last index of the secant vector; the sorted array has more than
  one element, so the single-element fallback branches are not taken; and no access
  raises, in particular for a query strictly inside the range: the tangents, the
  coefficients of the located segment and the interpolation all return values.
\<close>

theorem indexing_in_bounds:
  assumes "length y_data = length x_data" and "2 \<le> length x_data"
  shows "let xs = sorted_xs x_data; ys = sorted_ys x_data y_data;
             n = int (length xs); m = calculate_slopes xs ys
         in 1 < length xs \<and> length ys = length xs \<and> int (length m) = n - 1 \<and>
            0 \<le> segment_index xs q \<and> segment_index xs q \<le> n - 2 \<and>
            segment_index xs q + 1 < n \<and>
            (\<forall>i\<in>set [2..n - 3]. 0 \<le> i - 2 \<and> i + 1 \<le> n - 2 \<and> i + 1 < int (length m)) \<and>
            (\<exists>s. calculate_spline_slopes xs ys = Inr s \<and> length s = length xs \<and>
                 (xs ! 0 < q \<and> q < xs ! (length xs - 1) \<longrightarrow>
                    (\<exists>k. calculate_cubic_coefficients xs ys s (segment_index xs q) = Inr k))) \<and>
            (\<exists>v. akima_interpolate_npoints x_data y_data q = Inr v)"
proof -
  define xs where "xs = sorted_xs x_data"
  define ys where "ys = sorted_ys x_data y_data"
  define m where "m = calculate_slopes xs ys"
  have l: "length xs = length x_data" "length ys = length xs"
    by (simp_all add: xs_def ys_def)
  have n2: "2 \<le> length xs" using assms(2) l by simp
  have lm: "int (length m) = int (length xs) - 1"
    using l n2 by (simp add: m_def length_calculate_slopes)
  have seg: "0 \<le> segment_index xs q \<and> segment_index xs q \<le> int (length xs) - 2"
    by (rule segment_index_clamped [OF n2])
  have loop: "\<forall>i\<in>set [2..int (length xs) - 3].
                0 \<le> i - 2 \<and> i + 1 \<le> int (length xs) - 2 \<and> i + 1 < int (length m)"
    using lm by auto
  obtain s where s: "calculate_spline_slopes xs ys = Inr s" "length s = length xs"
    using spline_slopes_value [OF l(2) n2] by auto
  have co: "\<exists>k. calculate_cubic_coefficients xs ys s (segment_index xs q) = Inr k"
    if "xs ! 0 < q \<and> q < xs ! (length xs - 1)"
  proof -
    have srt: "sorted xs" by (simp add: xs_def sorted_sorted_xs)
    have loc: "xs ! nat (segment_index xs q) < q" "q \<le> xs ! (nat (segment_index xs q) + 1)"
      using segment_index_locates [OF srt, of q] that by simp_all
    have ne: "xs ! (nat (segment_index xs q) + 1) \<noteq> xs ! nat (segment_index xs q)"
      using loc by simp
    have "calculate_cubic_coefficients xs ys s (segment_index xs q) =
           Inr (let h = xs ! (nat (segment_index xs q) + 1) - xs ! nat (segment_index xs q);
                    m_i = (ys ! (nat (segment_index xs q) + 1) - ys ! nat (segment_index xs q)) / h
                in (ys ! nat (segment_index xs q), s ! nat (segment_index xs q),
                    (3 * m_i - 2 * s ! nat (segment_index xs q)
                       - s ! (nat (segment_index xs q) + 1)) / h,
                    (s ! nat (segment_index xs q) + s ! (nat (segment_index xs q) + 1)
                       - 2 * m_i) / (h * h)))"
      by (rule cubic_coefficients_in_range) (use seg l s(2) ne in auto)
    then show ?thesis by (rule exI)
  qed
  have v: "\<exists>v. akima_interpolate_npoints x_data y_data q = Inr v"
    by (rule npoints_value [OF assms])
  have "1 < length xs \<and> length ys = length xs \<and> int (length m) = int (length xs) - 1 \<and>
        0 \<le> segment_index xs q \<and> segment_index xs q \<le> int (length xs) - 2 \<and>
        segment_index xs q + 1 < int (length xs) \<and>
        (\<forall>i\<in>set [2..int (length xs) - 3].
            0 \<le> i - 2 \<and> i + 1 \<le> int (length xs) - 2 \<and> i + 1 < int (length m)) \<and>
        (\<exists>s. calculate_spline_slopes xs ys = Inr s \<and> length s = length xs \<and>
             (xs ! 0 < q \<and> q < xs ! (length xs - 1) \<longrightarrow>
                (\<exists>k. calculate_cubic_coefficients xs ys s (segment_index xs q) = Inr k))) \<and>
        (\<exists>v. akima_interpolate_npoints x_data y_data q = Inr v)"
    using n2 l(2) lm seg loop s co v by auto
  then show ?thesis
    unfolding Let_def xs_def [symmetric] ys_def [symmetric] m_def [symmetric] .
qed

theorem indexing_in_bounds_witness:
  "length [0, 1, 4, 9, 16, 25 :: real] = length [0, 1, 2, 3, 4, 5 :: real] \<and>
   2 \<le> length [0, 1, 2, 3, 4, 5 :: real] \<and>
   0 \<le> segment_index (sorted_xs [0, 1, 2, 3, 4, 5]) (5 / 2) \<and>
   segment_index (sorted_xs [0, 1, 2, 3, 4, 5]) (5 / 2) + 1 <
     int (length (sorted_xs [0, 1, 2, 3, 4, 5])) \<and>
   (\<exists>v. akima_interpolate_npoints [0, 1, 2, 3, 4, 5] [0, 1, 4, 9, 16, 25] (5 / 2) = Inr v)"
proof -
  have h1: "length [0, 1, 4, 9, 16, 25 :: real] = length [0, 1, 2, 3, 4, 5 :: real]" by simp
  have h2: "2 \<le> length [0, 1, 2, 3, 4, 5 :: real]" by simp
  show ?thesis
    using indexing_in_bounds [OF h1 h2, of "5 / 2"] h1 h2
    unfolding Let_def by blast
qed

section \<open>Linear extrapolation (C3)\<close>

lemma npoints_extrapolates:
  assumes "length y = length x" and "2 \<le> length x"
  shows "(q \<le> sorted_xs x ! 0 \<longrightarrow>
            akima_interpolate_npoints x y q =
              Inr (if sorted_xs x ! 1 = sorted_xs x ! 0 then sorted_ys x y ! 0
                   else sorted_ys x y ! 0 +
                        (sorted_ys x y ! 1 - sorted_ys x y ! 0) /
                        (sorted_xs x ! 1 - sorted_xs x ! 0) * (q - sorted_xs x ! 0))) \<and>
         (sorted_xs x ! (length x - 1) < q \<longrightarrow>
            akima_interpolate_npoints x y q =
              Inr (if sorted_xs x ! (length x - 1) = sorted_xs x ! (length x - 2)
                   then sorted_ys x y ! (length x - 1)
                   else sorted_ys x y ! (length x - 1) +
                        (sorted_ys x y ! (length x - 1) - sorted_ys x y ! (length x - 2)) /
                        (sorted_xs x ! (length x - 1) - sorted_xs x ! (length x - 2)) *
                        (q - sorted_xs x ! (length x - 1))))"
proof (intro conjI impI)
  assume "q \<le> sorted_xs x ! 0"
  then show "akima_interpolate_npoints x y q =
              Inr (if sorted_xs x ! 1 = sorted_xs x ! 0 then sorted_ys x y ! 0
                   else sorted_ys x y ! 0 +
                        (sorted_ys x y ! 1 - sorted_ys x y ! 0) /
                        (sorted_xs x ! 1 - sorted_xs x ! 0) * (q - sorted_xs x ! 0))"
    using interpolate_sorted_low [of "sorted_ys x y" "sorted_xs x" q] assms
    by (simp add: npoints_unfold)
next
  assume a: "sorted_xs x ! (length x - 1) < q"
  have "sorted_xs x ! 0 \<le> sorted_xs x ! (length x - 1)"
    using assms(2) by (intro sorted_nth_mono sorted_sorted_xs) simp_all
  then have b: "sorted_xs x ! 0 < q" using a by simp
  show "akima_interpolate_npoints x y q =
              Inr (if sorted_xs x ! (length x - 1) = sorted_xs x ! (length x - 2)
                   then sorted_ys x y ! (length x - 1)
                   else sorted_ys x y ! (length x - 1) +
                        (sorted_ys x y ! (length x - 1) - sorted_ys x y ! (length x - 2)) /
                        (sorted_xs x ! (length x - 1) - sorted_xs x ! (length x - 2)) *
                        (q - sorted_xs x ! (length x - 1)))"
    using interpolate_sorted_high [of "sorted_ys x y" "sorted_xs x" q] assms a b
    by (simp add: npoints_unfold)
qed

lemma interpolate_sorted_homework_low:
  assumes "length ys = length xs" and "2 \<le> length xs" and "q \<le> xs ! 0"
  shows "interpolate_sorted_homework xs ys sres q =
           Inr (fadd (Finite (ys ! 0))
                  (fmul (np_divide (ys ! 1 - ys ! 0) (xs ! 1 - xs ! 0)) (Finite (q - xs ! 0))))"
proof -
  have p: "0 < length xs" "1 < length xs" using assms(2) by linarith+
  have g: "getitem a 0 = Inr (a ! 0)" "getitem a 1 = Inr (a ! 1)"
    if "length a = length xs" for a :: "real list"
    using p that by (simp_all add: getitem_in_range)
  show ?thesis
    using assms(2,3) by (simp add: interpolate_sorted_homework_def g assms(1))
qed

lemma homework_coincident_nonfinite:
  assumes "length y = length x" and "2 \<le> length x"
    and "q \<le> sorted_xs x ! 0" and "sorted_xs x ! 1 = sorted_xs x ! 0"
  shows "akima_interpolate_npoints_homework x y q = Inr NonFinite"
proof -
  have "akima_interpolate_npoints_homework x y q =
          interpolate_sorted_homework (sorted_xs x) (sorted_ys x y)
            (calculate_spline_slopes (sorted_xs x) (sorted_ys x y)) q"
    using assms(1,2)
    by (simp add: akima_interpolate_npoints_homework_def take_indices_argsort
        sorted_xs_def sorted_ys_def Let_def)
  then show ?thesis
    using interpolate_sorted_homework_low [of "sorted_ys x y" "sorted_xs x" q] assms
    by (simp add: np_divide_def)
qed

text \<open>
  Claim C3 holds for \<open>akima_interpolate_npoints\<close> of \<open>akima_interpolation.py\<close>
  (\<open>npoints_extrapolates\<close>: the straight line through the two nearest boundary samples,
  and the boundary \<open>y\<close> when they coincide in \<open>x\<close>). The copy of the function in
  \<open>Homework/akima_interpolation.py\<close> has no test for coincident boundary samples: it
  divides by zero, and for \<open>x = [1, 1]\<close>, \<open>y = [5, 7]\<close> and the query 0 it returns a
  non-finite float where the claim says it returns the boundary \<open>y\<close>, which is 5.
\<close>

theorem homework_extrapolation_divides_by_zero:
  "akima_interpolate_npoints_homework [1, 1] [5, 7] 0 = Inr NonFinite \<and>
   akima_interpolate_npoints [1, 1] [5, 7] 0 = Inr 5"
  by code_simp

section \<open>Order independence (C9)\<close>

lemma filter_key_distinct:
  assumes "distinct (map f xs)" and "k \<in> set xs"
  shows "filter (\<lambda>p. f k = f p) xs = [k]"
  using assms
proof (induction xs)
  case Nil
  then show ?case by simp
next
  case (Cons a xs)
  show ?case
  proof (cases "k = a")
    case True
    have "filter (\<lambda>p. f a = f p) xs = []"
      using Cons.prems(1) by (auto simp: filter_empty_conv)
    then show ?thesis using True by simp
  next
    case False
    then have "k \<in> set xs" using Cons.prems(2) by simp
    moreover have "f k \<noteq> f a"
    proof
      assume "f k = f a"
      then have "f a \<in> f ` set xs" using \<open>k \<in> set xs\<close> by (metis imageI)
      then show False using Cons.prems(1) by simp
    qed
    ultimately show ?thesis using Cons by simp
  qed
qed

lemma sort_key_permutation:
  assumes "mset ps' = mset ps" and "distinct (map f ps)"
  shows "sort_key f ps' = sort_key f ps"
proof (rule properties_for_sort_key)
  show "mset (sort_key f ps) = mset ps'" using assms(1) by simp
  show "sorted (map f (sort_key f ps))" by (rule sorted_sort_key)
  fix k assume k: "k \<in> set (sort_key f ps)"
  have d': "distinct (map f ps')"
    using assms mset_eq_imp_distinct_iff [of "map f ps'" "map f ps"] by simp
  have ds: "distinct (map f (sort_key f ps))"
    using assms(2) mset_eq_imp_distinct_iff [of "map f (sort_key f ps)" "map f ps"] by simp
  have "k \<in> set ps'" using k assms(1) mset_eq_setD by fastforce
  then have "filter (\<lambda>p. f k = f p) ps' = [k]" by (rule filter_key_distinct [OF d'])
  moreover have "filter (\<lambda>p. f k = f p) (sort_key f ps) = [k]"
    by (rule filter_key_distinct [OF ds k])
  ultimately show "filter (\<lambda>p. f k = f p) (sort_key f ps) = filter (\<lambda>p. f k = f p) ps'"
    by simp
qed

lemma sorted_samples_permutation:
  assumes "distinct x" and "length y = length x" and "length y' = length x'"
    and "mset (zip x' y') = mset (zip x y)"
  shows "length x' = length x \<and> sorted_xs x' = sorted_xs x \<and> sorted_ys x' y' = sorted_ys x y"
proof -
  have len: "length x' = length x"
    using assms(2,3) arg_cong [OF assms(4), of size] by simp
  have "distinct (map fst (zip x y))" using assms(1,2) by (simp add: map_fst_zip)
  then have "sort_key fst (zip x' y') = sort_key fst (zip x y)"
    by (rule sort_key_permutation [OF assms(4)])
  then have z: "zip (sorted_xs x') (sorted_ys x' y') = zip (sorted_xs x) (sorted_ys x y)"
    using assms(2,3) by (simp add: zip_sorted)
  have "map fst (zip (sorted_xs x') (sorted_ys x' y')) = sorted_xs x'"
    "map snd (zip (sorted_xs x') (sorted_ys x' y')) = sorted_ys x' y'"
    "map fst (zip (sorted_xs x) (sorted_ys x y)) = sorted_xs x"
    "map snd (zip (sorted_xs x) (sorted_ys x y)) = sorted_ys x y"
    by (simp_all add: map_fst_zip map_snd_zip)
  then show ?thesis using z len by metis
qed

text \<open>
  Claim C9. For a dataset with pairwise distinct \<open>x\<close> values and every permutation of
  its \<open>(x, y)\<close> pairs, the interpolation at any query returns the same result on the
  permuted input as on the original one, for the N-point and for the four-point entry
  point: both sort the pairs by \<open>x\<close> before anything else.
\<close>

theorem interpolation_order_independent:
  assumes "distinct x" and "length y = length x" and "length y' = length x'"
    and "mset (zip x' y') = mset (zip x y)"
  shows "akima_interpolate_npoints x' y' q = akima_interpolate_npoints x y q \<and>
         akima_interpolate_4points x' y' q = akima_interpolate_4points x y q"
proof -
  have p: "length x' = length x" "sorted_xs x' = sorted_xs x" "sorted_ys x' y' = sorted_ys x y"
    using sorted_samples_permutation [OF assms] by simp_all
  have n: "akima_interpolate_npoints x' y' q = akima_interpolate_npoints x y q"
  proof (cases "2 \<le> length x")
    case True
    then show ?thesis using assms(2,3) p by (simp add: npoints_unfold)
  next
    case False
    then show ?thesis using assms(2,3) p by (simp add: akima_interpolate_npoints_def)
  qed
  have f: "akima_interpolate_4points x' y' q = akima_interpolate_4points x y q"
  proof (cases "length x = 4")
    case True
    then show ?thesis using assms(2,3) p by (simp add: fourpoints_unfold)
  next
    case False
    then show ?thesis using assms(2,3) p by (simp add: akima_interpolate_4points_def)
  qed
  show ?thesis using n f by (rule conjI)
qed

theorem interpolation_order_independent_witness:
  "distinct [0, 1, 2, 3 :: real] \<and>
   mset (zip [2, 0, 3, 1 :: real] [4, 0, 9, 1 :: real]) = mset (zip [0, 1, 2, 3] [0, 1, 4, 9]) \<and>
   akima_interpolate_npoints [2, 0, 3, 1] [4, 0, 9, 1] (3 / 2) =
     akima_interpolate_npoints [0, 1, 2, 3] [0, 1, 4, 9] (3 / 2) \<and>
   akima_interpolate_4points [2, 0, 3, 1] [4, 0, 9, 1] (3 / 2) =
     akima_interpolate_4points [0, 1, 2, 3] [0, 1, 4, 9] (3 / 2)"
proof -
  have h1: "distinct [0, 1, 2, 3 :: real]" by simp
  have h2: "length [0, 1, 4, 9 :: real] = length [0, 1, 2, 3 :: real]" by simp
  have h3: "length [4, 0, 9, 1 :: real] = length [2, 0, 3, 1 :: real]" by simp
  have h4: "mset (zip [2, 0, 3, 1 :: real] [4, 0, 9, 1 :: real]) =
            mset (zip [0, 1, 2, 3] [0, 1, 4, 9])"
    by (simp add: add_mset_commute)
  show ?thesis
    using interpolation_order_independent [OF h1 h2 h3 h4, of "3 / 2"] h1 h4 by blast
qed

section \<open>Input validation and the cache (C6, C7)\<close>

lemma npoints_validation:
  "(length x \<noteq> length y \<longrightarrow> akima_interpolate_npoints x y q = Inl LengthMismatch) \<and>
   (length x = length y \<and> length x < 2 \<longrightarrow>
      akima_interpolate_npoints x y q = Inl InsufficientPoints)"
  by (simp add: akima_interpolate_npoints_def)





lemma stored_tangents_fresh:
  assumes "new_entry x y = Inr e"
  shows "calculate_spline_slopes (entry_x_sorted e) (entry_y_sorted e) = Inr (entry_s e)"
  using assms
  by (auto simp: new_entry_def Let_def bind_err_def split: sum.splits)







text \<open>
  What the cached entry point lacks is validation. It does not check that it is given
  four points, as \<open>akima_interpolate_4points\<close> does:
\<close>

lemma cached_skips_arity_check:
  "akima_interpolate_4points [0, 1] [0, 1] (1 / 2) = Inl FixedArity \<and>
   fst (akima_interpolate_4points_with_cache Map.empty [0, 1] [0, 1] (1 / 2)) = Inr (1 / 2)"
  by code_simp

text \<open>
  Claim C7 says that the N-point entry point fails when the lengths of \<open>x\<close> and \<open>y\<close>
  differ and when fewer than two samples are supplied (\<open>npoints_validation\<close>), and that
  the cached entry point enforces the same contract. The cached entry point has no
  length check: for \<open>x = [0, 1]\<close>, \<open>y = [0, 1, 2]\<close> and the query 1/2 the N-point entry
  point raises and the cached one returns 1/2.
\<close>

theorem cached_skips_length_check:
  "akima_interpolate_npoints [0, 1] [0, 1, 2] (1 / 2) = Inl LengthMismatch \<and>
   fst (akima_interpolate_4points_with_cache Map.empty [0, 1] [0, 1, 2] (1 / 2)) = Inr (1 / 2)"
  by code_simp

end
